theory Spec2Isabelle
  imports
    Complex_Main
    "HOL-Library.Char_ord"
    "HOL-Library.List_Lexorder"
    "HOL-Library.Product_Lexorder"
    "HOL-Library.AList"
begin

section \<open>The mock exporter \<^verbatim>\<open>exporter.py\<close>\<close>

text \<open>
  Conventions of the embedding.
  \<^item> A Python \<^verbatim>\<open>float\<close> is a \<^typ>\<open>real\<close>: rounding, infinities and NaN are not modelled.
  \<^item> A Python \<^verbatim>\<open>str\<close> is a \<^typ>\<open>string\<close> whose characters are read as the code points
    below 256; strings are compared as Python compares them, code point by code point
    (the orders of \<open>Char_ord\<close> and \<open>List_Lexorder\<close>), tuples lexicographically.
  \<^item> A Python \<^verbatim>\<open>dict\<close> that the code iterates over is an association list in insertion
    order with distinct keys: \<^const>\<open>AList.update\<close> overwrites in place or appends,
    \<^const>\<open>AList.map_entry\<close> mutates the stored object. The counter store, which is only looked
    up, is a map.
  \<^item> The exception caught in \<^verbatim>\<open>scan_directory\<close> is the value \<^const>\<open>None\<close>.
  \<^item> The pseudo-random generator is an oracle: the \<open>i\<close>-th draw of \<^verbatim>\<open>random.random()\<close> and
    the \<open>i\<close>-th standard normal deviate are given, and the state counts the draws.
  \<^item> The clock and the directory contents are inputs of each call.
\<close>

subsection \<open>String operations of Python\<close>

definition dquote :: char where
  "dquote = CHR 0x22"

definition is_space :: "char \<Rightarrow> bool" where
  "is_space c = (c \<in> set [CHR '' '', CHR 0x09, CHR 0x0A, CHR 0x0B, CHR 0x0C, CHR 0x0D,
                           CHR 0x1C, CHR 0x1D, CHR 0x1E, CHR 0x1F, CHR 0x85, CHR 0xA0])"

definition is_digit :: "char \<Rightarrow> bool" where
  "is_digit c = (c \<in> set ''0123456789'')"

definition is_alpha :: "char \<Rightarrow> bool" where
  "is_alpha c = (c \<in> set ''abcdefghijklmnopqrstuvwxyzABCDEFGHIJKLMNOPQRSTUVWXYZ'')"

definition str_strip :: "string \<Rightarrow> string" where
  "str_strip s = rev (dropWhile is_space (rev (dropWhile is_space s)))"

fun str_split :: "char \<Rightarrow> string \<Rightarrow> string list" where
  "str_split sep [] = [[]]"
| "str_split sep (c # cs) =
     (if c = sep then [] # str_split sep cs
      else (case str_split sep cs of w # ws \<Rightarrow> (c # w) # ws | [] \<Rightarrow> [[c]]))"

definition str_split1 :: "char \<Rightarrow> string \<Rightarrow> string list" where
  "str_split1 sep s =
     (if sep \<in> set s
      then [takeWhile (\<lambda>c. c \<noteq> sep) s, tl (dropWhile (\<lambda>c. c \<noteq> sep) s)]
      else [s])"

fun str_join :: "string \<Rightarrow> string list \<Rightarrow> string" where
  "str_join sep [] = []"
| "str_join sep [x] = x"
| "str_join sep (x # y # ys) = x @ sep @ str_join sep (y # ys)"

definition startswith :: "string \<Rightarrow> string \<Rightarrow> bool" where
  "startswith p s = (take (length p) s = p)"

definition endswith :: "string \<Rightarrow> string \<Rightarrow> bool" where
  "endswith p s = (length p \<le> length s \<and> drop (length s - length p) s = p)"

text \<open>
  \<^verbatim>\<open>str.lower()\<close> on the letters A to Z. Its result is only compared with \<^verbatim>\<open>'counter'\<close>, and
  Python maps no other character below 256 to an ASCII letter.
\<close>

definition lower_char :: "char \<Rightarrow> char" where
  "lower_char c =
     (if c \<in> set ''ABCDEFGHIJKLMNOPQRSTUVWXYZ'' then char_of (of_char c + (32::nat)) else c)"

definition str_lower :: "string \<Rightarrow> string" where
  "str_lower s = map lower_char s"

subsection \<open>Samples, metric definitions and their statistics\<close>

record metric_sample =
  "value" :: real
  labels :: "(string \<times> string) list"

record metric_definition =
  name :: string
  metric_type :: string
  help_text :: string
  samples :: "metric_sample list"
  min_value :: "real option"
  max_value :: "real option"
  mean_value :: "real option"
  std_dev :: "real option"
  is_counter :: bool

fun list_min :: "real list \<Rightarrow> real" where
  "list_min (x # xs) = fold (\<lambda>y m. if y < m then y else m) xs x"

fun list_max :: "real list \<Rightarrow> real" where
  "list_max (x # xs) = fold (\<lambda>y m. if y > m then y else m) xs x"

definition mean :: "real list \<Rightarrow> real" where
  "mean xs = sum_list xs / real (length xs)"

definition stdev :: "real list \<Rightarrow> real" where
  "stdev xs = sqrt (sum_list (map (\<lambda>x. (x - mean xs)\<^sup>2) xs) / real (length xs - 1))"

definition post_init :: "metric_definition \<Rightarrow> metric_definition" where
  "post_init m =
     (let m1 =
        (if samples m \<noteq> [] then
           (let values = map value (samples m) in
            m\<lparr>min_value := Some (list_min values),
              max_value := Some (list_max values),
              mean_value := Some (mean values),
              std_dev := Some (if length values > 1 then stdev values else 0)\<rparr>)
         else m)
      in m1\<lparr>is_counter := (str_lower (metric_type m1) = ''counter'')\<rparr>)"

definition MetricDefinition ::
  "string \<Rightarrow> string \<Rightarrow> string \<Rightarrow> metric_sample list \<Rightarrow> metric_definition" where
  "MetricDefinition nm ty help ss =
     post_init \<lparr>name = nm, metric_type = ty, help_text = help, samples = ss,
                min_value = None, max_value = None, mean_value = None, std_dev = None,
                is_counter = False\<rparr>"

subsection \<open>The regular expressions of the parser\<close>

text \<open>
  The sample line pattern is
  \<^verbatim>\<open>^([a-zA-Z_:][a-zA-Z0-9_:]*)(?:{(.*?)})? ([-+]?[0-9]*\.?[0-9]+(?:[eE][-+]?[0-9]+)?)(?: (\d+))?$\<close>.
  Every match is forced: the name is the longest run of name characters (what follows
  it is a brace or a space), the brace that closes the label block is the last one of the
  line (nothing after it may be a brace), and the rest splits at its spaces. The
  functions below compute that match; \<^verbatim>\<open>float(match.group(3))\<close> is folded into
  \<open>match_value\<close>, which returns the number that group 3 denotes.
\<close>

definition is_name_start :: "char \<Rightarrow> bool" where
  "is_name_start c = (is_alpha c \<or> c = CHR ''_'' \<or> c = CHR '':'')"

definition is_name_char :: "char \<Rightarrow> bool" where
  "is_name_char c = (is_alpha c \<or> is_digit c \<or> c = CHR ''_'' \<or> c = CHR '':'')"

definition is_label_start :: "char \<Rightarrow> bool" where
  "is_label_start c = (is_alpha c \<or> c = CHR ''_'')"

definition is_label_char :: "char \<Rightarrow> bool" where
  "is_label_char c = (is_alpha c \<or> is_digit c \<or> c = CHR ''_'')"

definition digits_val :: "string \<Rightarrow> nat" where
  "digits_val ds = foldl (\<lambda>a c. 10 * a + (of_char c - 48)) 0 ds"

definition take_sign :: "string \<Rightarrow> bool \<times> string" where
  "take_sign s =
     (case s of
        [] \<Rightarrow> (False, [])
      | c # cs \<Rightarrow> if c = CHR ''-'' then (True, cs)
                  else if c = CHR ''+'' then (False, cs) else (False, s))"

definition match_exponent :: "string \<Rightarrow> int option" where
  "match_exponent s =
     (case s of
        [] \<Rightarrow> Some 0
      | c # cs \<Rightarrow>
          if c = CHR ''e'' \<or> c = CHR ''E'' then
            (case take_sign cs of
               (neg, ds) \<Rightarrow>
                 if ds \<noteq> [] \<and> list_all is_digit ds
                 then Some (if neg then - int (digits_val ds) else int (digits_val ds))
                 else None)
          else None)"

definition match_value :: "string \<Rightarrow> real option" where
  "match_value s =
     (case take_sign s of
        (neg, s1) \<Rightarrow>
          (let ip = takeWhile is_digit s1;
               r1 = dropWhile is_digit s1;
               dotted = startswith ''.'' r1;
               fp = (if dotted then takeWhile is_digit (tl r1) else []);
               r2 = (if dotted then dropWhile is_digit (tl r1) else r1)
           in if (if dotted then fp \<noteq> [] else ip \<noteq> []) then
                (case match_exponent r2 of
                   None \<Rightarrow> None
                 | Some e \<Rightarrow>
                     Some ((if neg then - 1 else 1)
                           * (real (digits_val (ip @ fp)) / 10 ^ length fp)
                           * (if 0 \<le> e then 10 ^ nat e else 1 / 10 ^ nat (- e))))
              else None))"

definition match_tail :: "string \<Rightarrow> real option" where
  "match_tail t =
     (case t of
        [] \<Rightarrow> None
      | c # r \<Rightarrow>
          if c = CHR '' '' then
            (if CHR '' '' \<in> set r then
               (let v = takeWhile (\<lambda>x. x \<noteq> CHR '' '') r;
                    ts = tl (dropWhile (\<lambda>x. x \<noteq> CHR '' '') r)
                in if ts \<noteq> [] \<and> list_all is_digit ts then match_value v else None)
             else match_value r)
          else None)"

definition match_sample :: "string \<Rightarrow> (string \<times> string option \<times> real) option" where
  "match_sample line =
     (case line of
        [] \<Rightarrow> None
      | c # cs \<Rightarrow>
          if is_name_start c then
            (let nm = c # takeWhile is_name_char cs;
                 rest = dropWhile is_name_char cs
             in case rest of
                  [] \<Rightarrow> None
                | b # body \<Rightarrow>
                    if b = CHR ''{'' then
                      (if CHR ''}'' \<in> set body then
                         (let inner = rev (tl (dropWhile (\<lambda>x. x \<noteq> CHR ''}'') (rev body)));
                              tail = rev (takeWhile (\<lambda>x. x \<noteq> CHR ''}'') (rev body))
                          in map_option (\<lambda>v. (nm, Some inner, v)) (match_tail tail))
                       else None)
                    else map_option (\<lambda>v. (nm, None, v)) (match_tail rest))
          else None)"

text \<open>
  The label pattern \<^verbatim>\<open>([a-zA-Z_][a-zA-Z0-9_]*)="(.*?)"\<close> at the head of a string: the
  label name, the label value and the length of the match.
\<close>

definition match_label_at :: "string \<Rightarrow> (string \<times> string \<times> nat) option" where
  "match_label_at s =
     (case s of
        [] \<Rightarrow> None
      | c # cs \<Rightarrow>
          if is_label_start c then
            (let k = c # takeWhile is_label_char cs;
                 r = dropWhile is_label_char cs
             in if startswith [CHR ''='', dquote] r \<and> dquote \<in> set (drop 2 r) then
                  (let v = takeWhile (\<lambda>x. x \<noteq> dquote) (drop 2 r)
                   in Some (k, v, length k + 2 + length v + 1))
                else None)
          else None)"

text \<open>
  \<^verbatim>\<open>re.finditer\<close>: the matches from left to right, each search resuming where the
  previous match ended. The first argument counts the characters still covered by the
  previous match.
\<close>

fun finditer_labels :: "nat \<Rightarrow> string \<Rightarrow> (string \<times> string) list" where
  "finditer_labels skip [] = []"
| "finditer_labels (Suc skip) (c # cs) = finditer_labels skip cs"
| "finditer_labels 0 (c # cs) =
     (case match_label_at (c # cs) of
        Some (k, v, n) \<Rightarrow> (k, v) # finditer_labels (n - 1) cs
      | None \<Rightarrow> finditer_labels 0 cs)"

definition parse_labels :: "string option \<Rightarrow> (string \<times> string) list" where
  "parse_labels labels_str =
     (case labels_str of
        None \<Rightarrow> []
      | Some ls \<Rightarrow>
          if ls \<noteq> [] then fold (\<lambda>(k, v) d. AList.update k v d) (finditer_labels 0 ls) []
          else [])"

subsection \<open>\<^verbatim>\<open>PrometheusFileParser.parse\<close>\<close>

type_synonym catalog = "(string \<times> metric_definition) list"

text \<open>The three updates of \<^verbatim>\<open>self.metrics\<close> that a line can make.\<close>

definition set_help :: "string \<Rightarrow> string \<Rightarrow> catalog \<Rightarrow> catalog" where
  "set_help nm help ms =
     (if map_of ms nm = None
      then AList.update nm (MetricDefinition nm [] help []) ms
      else AList.map_entry nm (\<lambda>m. m\<lparr>help_text := help\<rparr>) ms)"

definition set_type :: "string \<Rightarrow> string \<Rightarrow> catalog \<Rightarrow> catalog" where
  "set_type nm ty ms =
     (if map_of ms nm = None
      then AList.update nm (MetricDefinition nm ty [] []) ms
      else AList.map_entry nm (\<lambda>m. m\<lparr>metric_type := ty\<rparr>) ms)"

definition add_sample :: "string \<Rightarrow> metric_sample \<Rightarrow> catalog \<Rightarrow> catalog" where
  "add_sample nm sample ms =
     AList.map_entry nm (\<lambda>m. m\<lparr>samples := samples m @ [sample]\<rparr>)
       (if map_of ms nm = None
        then AList.update nm (MetricDefinition nm [] [] []) ms
        else ms)"

definition parse_line :: "string \<Rightarrow> catalog \<Rightarrow> catalog" where
  "parse_line raw ms =
     (let line = str_strip raw in
      if line = [] \<or> startswith ''#'' line then
        (if startswith ''# HELP '' line then
           (case str_split1 CHR '' '' (drop (length ''# HELP '') line) of
              [nm, help] \<Rightarrow> set_help nm help ms
            | _ \<Rightarrow> ms)
         else if startswith ''# TYPE '' line then
           (case str_split1 CHR '' '' (drop (length ''# TYPE '') line) of
              [nm, ty] \<Rightarrow> set_type nm ty ms
            | _ \<Rightarrow> ms)
         else ms)
      else
        (case match_sample line of
           None \<Rightarrow> ms
         | Some (nm, labels_str, v) \<Rightarrow>
             add_sample nm \<lparr>value = v, labels = parse_labels labels_str\<rparr> ms))"

definition parse :: "string \<Rightarrow> catalog" where
  "parse content =
     map (\<lambda>(nm, metric). (nm, post_init metric))
       (fold parse_line (str_split CHR 0x0A (str_strip content)) [])"

subsection \<open>\<^verbatim>\<open>MetricGenerator\<close>\<close>

record rng =
  random01 :: "nat \<Rightarrow> real"
  gauss01 :: "nat \<Rightarrow> real"

definition uniform :: "rng \<Rightarrow> nat \<Rightarrow> real \<Rightarrow> real \<Rightarrow> real" where
  "uniform R i a b = a + (b - a) * random01 R i"

definition gauss :: "rng \<Rightarrow> nat \<Rightarrow> real \<Rightarrow> real \<Rightarrow> real" where
  "gauss R i mu sigma = mu + gauss01 R i * sigma"

type_synonym counter_store = "string \<rightharpoonup> (string \<rightharpoonup> real)"

record generator =
  metrics :: catalog
  counter_state :: counter_store
  scan_interval :: real
  last_scan_time :: real
  draws :: nat

definition MetricGenerator :: generator where
  "MetricGenerator =
     \<lparr>metrics = [], counter_state = Map.empty, scan_interval = 60, last_scan_time = 0,
      draws = 0\<rparr>"

definition labels_to_key :: "(string \<times> string) list \<Rightarrow> string" where
  "labels_to_key lbls =
     (if lbls = [] then []
      else str_join '','' (map (\<lambda>(k, v). k @ ''='' @ v) (sort lbls)))"

definition key_to_labels :: "string \<Rightarrow> (string \<times> string) list" where
  "key_to_labels key =
     (if key = [] then []
      else fold (\<lambda>item lbls.
                   if CHR ''='' \<in> set item then
                     (case str_split1 CHR ''='' item of
                        [k, v] \<Rightarrow> AList.update k v lbls
                      | _ \<Rightarrow> lbls)
                   else lbls)
             (str_split CHR '','' key) [])"

text \<open>
  The directory as \<^verbatim>\<open>scan_directory\<close> sees it: \<^const>\<open>None\<close> when \<^verbatim>\<open>os.listdir\<close>
  raises, otherwise the file names in listing order, each with its content, or with
  \<^const>\<open>None\<close> when opening or reading it raises.
\<close>

type_synonym directory = "(string \<times> string option) list option"

definition merge_metric :: "string \<times> metric_definition \<Rightarrow> catalog \<Rightarrow> catalog" where
  "merge_metric entry new_metrics =
     (case entry of
        (nm, metric) \<Rightarrow>
          if map_of new_metrics nm \<noteq> None
          then AList.map_entry nm (\<lambda>m. m\<lparr>samples := samples m @ samples metric\<rparr>) new_metrics
          else AList.update nm metric new_metrics)"

definition merge_file :: "catalog \<Rightarrow> catalog \<Rightarrow> catalog" where
  "merge_file file_metrics new_metrics = fold merge_metric file_metrics new_metrics"

fun scan_files :: "(string \<times> string option) list \<Rightarrow> catalog \<Rightarrow> catalog option" where
  "scan_files [] new_metrics = Some new_metrics"
| "scan_files ((filename, content) # files) new_metrics =
     (if endswith ''.prom'' filename then
        (case content of
           None \<Rightarrow> None
         | Some text \<Rightarrow> scan_files files (merge_file (parse text) new_metrics))
      else scan_files files new_metrics)"

definition seed_sample ::
  "rng \<Rightarrow> metric_definition \<Rightarrow> metric_sample \<Rightarrow> (string \<rightharpoonup> real) \<times> nat \<Rightarrow> (string \<rightharpoonup> real) \<times> nat"
  where
  "seed_sample R metric sample st =
     (case st of
        (cs, i) \<Rightarrow>
          (let label_key = labels_to_key (labels sample) in
           if cs label_key = None then
             (case (min_value metric, max_value metric) of
                (Some lo, Some hi) \<Rightarrow> (cs(label_key \<mapsto> uniform R i lo hi), Suc i)
              | _ \<Rightarrow> (cs, i))
           else (cs, i)))"

definition seed_metric ::
  "rng \<Rightarrow> string \<times> metric_definition \<Rightarrow> counter_store \<times> nat \<Rightarrow> counter_store \<times> nat" where
  "seed_metric R entry st =
     (case entry of
        (nm, metric) \<Rightarrow>
          (case st of
             (cst, i) \<Rightarrow>
               if is_counter metric \<and> cst nm = None then
                 (case fold (seed_sample R metric) (samples metric) (Map.empty, i) of
                    (cs, i') \<Rightarrow> (cst(nm \<mapsto> cs), i'))
               else (cst, i)))"

definition scan_directory :: "rng \<Rightarrow> real \<Rightarrow> directory \<Rightarrow> generator \<Rightarrow> generator" where
  "scan_directory R current_time dir g =
     (if current_time - last_scan_time g < scan_interval g then g
      else
        (let g1 = g\<lparr>last_scan_time := current_time\<rparr> in
         case dir of
           None \<Rightarrow> g1
         | Some files \<Rightarrow>
             (case scan_files files [] of
                None \<Rightarrow> g1
              | Some new_metrics \<Rightarrow>
                  (case fold (seed_metric R) new_metrics (counter_state g1, draws g1) of
                     (cst, i) \<Rightarrow>
                       g1\<lparr>metrics := new_metrics, counter_state := cst, draws := i\<rparr>))))"

text \<open>
  The text that \<^verbatim>\<open>generate_metrics\<close> returns, line by line. A sample line carries the
  labels that are written between the braces and the number that is formatted after them.
\<close>

datatype out_line =
    NoMetricsFound
  | HelpLine string string
  | TypeLine string string
  | SampleLine string "(string \<times> string) list" real

definition group_sample ::
  "metric_sample \<Rightarrow> (string \<times> real list) list \<Rightarrow> (string \<times> real list) list" where
  "group_sample sample label_groups =
     (let label_key = labels_to_key (labels sample)
      in AList.map_entry label_key (\<lambda>vs. vs @ [value sample])
           (if map_of label_groups label_key = None
            then AList.update label_key [] label_groups
            else label_groups))"

definition group_samples :: "metric_sample list \<Rightarrow> (string \<times> real list) list" where
  "group_samples ss = fold group_sample ss []"

definition std_positive :: "metric_definition \<Rightarrow> bool" where
  "std_positive metric =
     (case std_dev metric of None \<Rightarrow> False | Some sd \<Rightarrow> sd \<noteq> 0 \<and> sd > 0)"

text \<open>The two value policies of the generation loop, for the draw number \<open>i\<close>.\<close>

definition counter_increment :: "rng \<Rightarrow> nat \<Rightarrow> metric_definition \<Rightarrow> real" where
  "counter_increment R i metric =
     (if std_positive metric then \<bar>gauss R i 0 (the (std_dev metric))\<bar>
      else uniform R i (1 / 10) 1)"

definition gauge_value :: "rng \<Rightarrow> nat \<Rightarrow> metric_definition \<Rightarrow> real \<Rightarrow> real \<Rightarrow> real" where
  "gauge_value R i metric lo hi =
     (if std_positive metric \<and> mean_value metric \<noteq> None
      then max (min (gauss R i (the (mean_value metric)) (the (std_dev metric))) hi) lo
      else uniform R i lo hi)"

type_synonym gen_state = "counter_store \<times> nat \<times> out_line list"

definition generate_group ::
  "rng \<Rightarrow> string \<Rightarrow> metric_definition \<Rightarrow> string \<times> real list \<Rightarrow> gen_state \<Rightarrow> gen_state" where
  "generate_group R nm metric grp st =
     (case grp of
        (label_key, values) \<Rightarrow>
          (case st of
             (cst, i, output) \<Rightarrow>
               (let lbls = key_to_labels label_key in
                if is_counter metric then
                  (case cst nm of
                     None \<Rightarrow> st
                   | Some cs \<Rightarrow>
                       (case cs label_key of
                          None \<Rightarrow> st
                        | Some current_value \<Rightarrow>
                            (let increment = counter_increment R i metric;
                                 new_value = current_value + increment
                             in (cst(nm \<mapsto> cs(label_key \<mapsto> new_value)), Suc i,
                                 output @ [SampleLine nm lbls new_value]))))
                else
                  (case (min_value metric, max_value metric) of
                     (Some lo, Some hi) \<Rightarrow>
                       (let v = gauge_value R i metric lo hi
                        in (cst, Suc i, output @ [SampleLine nm lbls v]))
                   | _ \<Rightarrow> st))))"

definition metadata_lines :: "string \<Rightarrow> metric_definition \<Rightarrow> out_line list" where
  "metadata_lines nm metric =
     (if help_text metric \<noteq> [] then [HelpLine nm (help_text metric)] else [])
     @ (if metric_type metric \<noteq> [] then [TypeLine nm (metric_type metric)] else [])"

definition generate_metric ::
  "rng \<Rightarrow> string \<times> metric_definition \<Rightarrow> gen_state \<Rightarrow> gen_state" where
  "generate_metric R entry st =
     (case entry of
        (nm, metric) \<Rightarrow>
          (case st of
             (cst, i, output) \<Rightarrow>
               fold (generate_group R nm metric) (group_samples (samples metric))
                 (cst, i, output @ metadata_lines nm metric)))"

definition generate_metrics ::
  "rng \<Rightarrow> real \<Rightarrow> directory \<Rightarrow> generator \<Rightarrow> generator \<times> out_line list" where
  "generate_metrics R current_time dir g =
     (let g1 = scan_directory R current_time dir g in
      if metrics g1 = [] then (g1, [NoMetricsFound])
      else
        (case fold (generate_metric R) (sort_key fst (metrics g1))
                (counter_state g1, draws g1, []) of
           (cst, i, output) \<Rightarrow> (g1\<lparr>counter_state := cst, draws := i\<rparr>, output)))"

text \<open>A run of the process: the calls it receives, in order, from the initial state.\<close>

datatype call = ScanDirectory real directory | GenerateMetrics real directory

fun step :: "rng \<Rightarrow> call \<Rightarrow> generator \<Rightarrow> generator" where
  "step R (ScanDirectory t dir) g = scan_directory R t dir g"
| "step R (GenerateMetrics t dir) g = fst (generate_metrics R t dir g)"

definition run :: "rng \<Rightarrow> call list \<Rightarrow> generator \<Rightarrow> generator" where
  "run R calls g = fold (step R) calls g"

subsection \<open>Notions used to state the properties\<close>

text \<open>
  The value stored for a series: \<^verbatim>\<open>self.counter_state[name][label_key]\<close> when
  \<^verbatim>\<open>name in self.counter_state and label_key in self.counter_state[name]\<close>.
\<close>

definition counter_lookup :: "counter_store \<Rightarrow> string \<Rightarrow> string \<Rightarrow> real option" where
  "counter_lookup cst nm label_key = (case cst nm of None \<Rightarrow> None | Some cs \<Rightarrow> cs label_key)"

text \<open>
  The statistics of a metric definition are consistent when a stored minimum does not
  exceed a stored maximum and both are values of samples of the metric.
\<close>

definition stats_ok :: "metric_definition \<Rightarrow> bool" where
  "stats_ok m =
     (case (min_value m, max_value m) of
        (Some lo, Some hi) \<Rightarrow>
          lo \<le> hi \<and> lo \<in> value ` set (samples m) \<and> hi \<in> value ` set (samples m)
      | _ \<Rightarrow> True)"

definition all_stats_ok :: "catalog \<Rightarrow> bool" where
  "all_stats_ok ms = list_all (\<lambda>entry. stats_ok (snd entry)) ms"

text \<open>
  The invariant of the catalog: names are distinct and the statistics consistent.
\<close>

definition catalog_ok :: "generator \<Rightarrow> bool" where
  "catalog_ok g = (distinct (map fst (metrics g)) \<and> all_stats_ok (metrics g))"


text \<open>
  The label keys of the groups of a metric.
\<close>

definition label_keys :: "metric_definition \<Rightarrow> string set" where
  "label_keys m = fst ` set (group_samples (samples m))"

text \<open>
  A sample line written for the metric \<open>nm\<close> with definition \<open>m\<close>, for one of the label keys
  \<open>K\<close>, between the stores \<open>cst\<close> and \<open>cst'\<close>: a counter line carries the stored value plus an
  increment and is what the store holds afterwards; any other line carries a gauge value.
\<close>

definition emitted ::
  "rng \<Rightarrow> counter_store \<Rightarrow> counter_store \<Rightarrow> string \<Rightarrow> metric_definition \<Rightarrow> string set \<Rightarrow> out_line \<Rightarrow> bool"
  where
  "emitted R cst cst' nm m K l =
     (\<exists>k v. k \<in> K \<and> l = SampleLine nm (key_to_labels k) v
        \<and> (if is_counter m
            then (\<exists>v0 j. counter_lookup cst nm k = Some v0
                    \<and> v = v0 + counter_increment R j m)
                 \<and> counter_lookup cst' nm k = Some v
            else (\<exists>lo hi j. min_value m = Some lo \<and> max_value m = Some hi
                    \<and> v = gauge_value R j m lo hi)))"

text \<open>
  What the loop over the label groups \<open>K\<close> of one metric does to the store and the output.
\<close>

definition group_post ::
  "rng \<Rightarrow> string \<Rightarrow> metric_definition \<Rightarrow> string set \<Rightarrow> counter_store \<Rightarrow> out_line list
     \<Rightarrow> counter_store \<Rightarrow> out_line list \<Rightarrow> bool"
  where
  "group_post R nm m K cst out cst' out' =
     ((\<exists>new. out' = out @ new \<and> (\<forall>l \<in> set new. emitted R cst cst' nm m K l))
      \<and> (\<forall>n. n \<noteq> nm \<longrightarrow> cst' n = cst n)
      \<and> (\<forall>k. k \<notin> K \<longrightarrow> counter_lookup cst' nm k = counter_lookup cst nm k))"

text \<open>
  What the loop over the metrics \<open>ms\<close> does to the store and the output.
\<close>

definition metrics_post ::
  "rng \<Rightarrow> catalog \<Rightarrow> counter_store \<Rightarrow> out_line list \<Rightarrow> counter_store \<Rightarrow> out_line list \<Rightarrow> bool"
  where
  "metrics_post R ms cst out cst' out' =
     ((\<exists>new. out' = out @ new
          \<and> (\<forall>l \<in> set new. \<exists>nm m. (nm, m) \<in> set ms
                \<and> (l \<in> set (metadata_lines nm m) \<or> emitted R cst cst' nm m (label_keys m) l))
          \<and> (\<forall>nm m. (nm, m) \<in> set ms \<longrightarrow> set (metadata_lines nm m) \<subseteq> set new))
      \<and> (\<forall>n. n \<notin> fst ` set ms \<longrightarrow> cst' n = cst n))"

text \<open>
  The definitions of the metric \<open>nm\<close> that the readable \<^verbatim>\<open>.prom\<close> files of a listing give,
  in listing order.
\<close>

definition file_definitions :: "string \<Rightarrow> (string \<times> string option) list \<Rightarrow> metric_definition list"
  where
  "file_definitions nm files =
     concat (map (\<lambda>(filename, content).
                    case content of
                      None \<Rightarrow> []
                    | Some body \<Rightarrow>
                        if endswith ''.prom'' filename
                        then (case map_of (parse body) nm of None \<Rightarrow> [] | Some m \<Rightarrow> [m])
                        else [])
               files)"

text \<open>
  The merge of the definitions of one name: the first definition, holding the samples of all.
\<close>

definition first_wins :: "metric_definition list \<Rightarrow> metric_definition option" where
  "first_wins ds =
     (case ds of
        [] \<Rightarrow> None
      | d # rest \<Rightarrow> Some (d\<lparr>samples := concat (map samples (d # rest))\<rparr>))"

text \<open>A concrete random source for the examples: every draw of \<^verbatim>\<open>random()\<close> is one half.\<close>

definition fixed_rng :: rng where
  "fixed_rng = \<lparr>random01 = (\<lambda>_. 1 / 2), gauss01 = (\<lambda>_. 1)\<rparr>"

subsection \<open>Example inputs\<close>

text \<open>
  The scenarios used below: a counter with the samples 10 and 20, a gauge with the samples 5,
  10 and 15, each with the definition that one scan gives it; a counter that gains a series
  between two scans; a directory with a file that cannot be read; a metric declared in two
  files; a metric with a help text and no sample; a gauge whose samples all carry 7, with the
  definition that one scan gives it.
\<close>

definition counter_dir :: directory where
  \<open>counter_dir =
     Some [(''requests.prom'',
            Some ''# TYPE http_requests_total counter\<newline>http_requests_total{method="GET"} 10\<newline>http_requests_total{method="GET"} 20'')]\<close>

definition http_requests_total :: metric_definition where
  "http_requests_total =
     \<lparr>name = ''http_requests_total'', metric_type = ''counter'', help_text = [],
      samples = [\<lparr>value = 10, labels = [(''method'', ''GET'')]\<rparr>,
                 \<lparr>value = 20, labels = [(''method'', ''GET'')]\<rparr>],
      min_value = Some 10, max_value = Some 20, mean_value = Some 15,
      std_dev = Some (sqrt 50), is_counter = True\<rparr>"

definition gauge_dir :: directory where
  \<open>gauge_dir =
     Some [(''temp.prom'',
            Some ''# HELP temp_c room temperature\<newline>temp_c 5\<newline>temp_c 10\<newline>temp_c 15'')]\<close>

definition temp_c :: metric_definition where
  "temp_c =
     \<lparr>name = ''temp_c'', metric_type = [], help_text = ''room temperature'',
      samples = [\<lparr>value = 5, labels = []\<rparr>, \<lparr>value = 10, labels = []\<rparr>,
                 \<lparr>value = 15, labels = []\<rparr>],
      min_value = Some 5, max_value = Some 15, mean_value = Some 10,
      std_dev = Some 5, is_counter = False\<rparr>"

definition new_series_dirs :: "directory \<times> directory" where
  \<open>new_series_dirs =
     (Some [(''m.prom'', Some ''# TYPE m counter\<newline>m{a="1"} 1'')],
      Some [(''m.prom'', Some ''# TYPE m counter\<newline>m{a="1"} 1\<newline>m{a="2"} 2'')])\<close>

definition unreadable_dir :: directory where
  "unreadable_dir = Some [(''a.prom'', None), (''b.prom'', Some ''m 1'')]"

definition two_files :: "(string \<times> string option) list" where
  "two_files =
     [(''a.prom'', Some ''# HELP m first\<newline># TYPE m gauge\<newline>m 1''),
      (''b.prom'', Some ''# HELP m second\<newline># TYPE m counter\<newline>m 2'')]"

definition help_only_dir :: directory where
  "help_only_dir = Some [(''m.prom'', Some ''# HELP m some text'')]"

definition help_only :: metric_definition where
  "help_only =
     \<lparr>name = ''m'', metric_type = [], help_text = ''some text'', samples = [],
      min_value = None, max_value = None, mean_value = None, std_dev = None,
      is_counter = False\<rparr>"

definition constant_dir :: directory where
  \<open>constant_dir =
     Some [(''m.prom'', Some ''# TYPE m gauge\<newline>m{a="1"} 7\<newline>m{a="2"} 7'')]\<close>

definition constant_metric :: metric_definition where
  "constant_metric =
     \<lparr>name = ''m'', metric_type = ''gauge'', help_text = [],
      samples = [\<lparr>value = 7, labels = [(''a'', ''1'')]\<rparr>, \<lparr>value = 7, labels = [(''a'', ''2'')]\<rparr>],
      min_value = Some 7, max_value = Some 7, mean_value = Some 7, std_dev = Some 0,
      is_counter = False\<rparr>"

section \<open>Evaluation\<close>

lemmas str_defs = dquote_def is_space_def is_digit_def is_alpha_def str_strip_def str_split1_def
  startswith_def endswith_def lower_char_def str_lower_def

lemmas re_defs = is_name_start_def is_name_char_def is_label_start_def is_label_char_def
  digits_val_def take_sign_def match_exponent_def match_value_def match_tail_def match_sample_def
  match_label_at_def parse_labels_def

lemmas parse_defs = parse_line_def set_help_def set_type_def add_sample_def parse_def MetricDefinition_def post_init_def mean_def

lemmas gen_defs = scan_directory_def MetricGenerator_def merge_file_def merge_metric_def group_sample_def seed_metric_def
  seed_sample_def generate_metrics_def generate_metric_def generate_group_def group_samples_def
  metadata_lines_def labels_to_key_def key_to_labels_def std_positive_def uniform_def gauss_def
  counter_increment_def gauge_value_def run_def counter_lookup_def fixed_rng_def

lemmas example_defs = counter_dir_def gauge_dir_def http_requests_total_def temp_c_def
  new_series_dirs_def unreadable_dir_def two_files_def help_only_dir_def help_only_def
  constant_dir_def constant_metric_def

lemmas eval_defs = str_defs re_defs parse_defs gen_defs stdev_def Let_def example_defs

section \<open>Label keys\<close>

lemma sort_eq_of_set_eq:
  fixes xs ys :: "('a::linorder) list"
  assumes "distinct xs" and "distinct ys" and "set xs = set ys"
  shows "sort xs = sort ys"
  using assms by (intro sorted_distinct_set_unique) simp_all

text \<open>
  Claim C6. Two label dictionaries (keys distinct, in any insertion order) that hold the
  same name-value pairs get the same label key, and the grouping of \<^verbatim>\<open>generate_metrics\<close>
  puts two samples that carry them into one group. The counter store is keyed by the same
  string.
\<close>

theorem labels_to_key_order_independent:
  assumes "distinct (map fst xs)" and "distinct (map fst ys)" and "set xs = set ys"
  shows "labels_to_key xs = labels_to_key ys
    \<and> group_samples [\<lparr>value = a, labels = xs\<rparr>, \<lparr>value = b, labels = ys\<rparr>]
        = [(labels_to_key xs, [a, b])]"
proof -
  have "distinct xs" and "distinct ys"
    using assms(1,2) by (auto dest: distinct_map[THEN iffD1])
  then have "sort xs = sort ys"
    using assms(3) by (rule sort_eq_of_set_eq)
  moreover have "xs = [] \<longleftrightarrow> ys = []"
    using assms(3) by (metis set_empty)
  ultimately have key: "labels_to_key xs = labels_to_key ys"
    by (simp add: labels_to_key_def)
  then show ?thesis
    by (simp add: group_samples_def group_sample_def)
qed

theorem labels_to_key_order_independent_witness:
  "labels_to_key [(''a'', ''1''), (''b'', ''2'')] = labels_to_key [(''b'', ''2''), (''a'', ''1'')]
   \<and> labels_to_key [(''a'', ''1''), (''b'', ''2'')] = ''a=1,b=2''
   \<and> group_samples [\<lparr>value = 3, labels = [(''a'', ''1''), (''b'', ''2'')]\<rparr>,
                     \<lparr>value = 4, labels = [(''b'', ''2''), (''a'', ''1'')]\<rparr>]
       = [(''a=1,b=2'', [3, 4])]"
proof -
  have "labels_to_key [(''a'', ''1''), (''b'', ''2'')]
          = labels_to_key [(''b'', ''2''), (''a'', ''1'')]
      \<and> group_samples [\<lparr>value = 3, labels = [(''a'', ''1''), (''b'', ''2'')]\<rparr>,
                        \<lparr>value = 4, labels = [(''b'', ''2''), (''a'', ''1'')]\<rparr>]
          = [(labels_to_key [(''a'', ''1''), (''b'', ''2'')], [3, 4])]"
    by (rule labels_to_key_order_independent) auto
  moreover have "labels_to_key [(''a'', ''1''), (''b'', ''2'')] = ''a=1,b=2''"
    by (simp add: labels_to_key_def)
  ultimately show ?thesis by simp
qed

section \<open>Statistics of a metric merged from several files\<close>

lemma fold_min_eq_Min:
  "fold (\<lambda>y m. if y < m then y else m) xs (x::real) = Min (insert x (set xs))"
proof (induction xs arbitrary: x)
  case Nil
  show ?case by simp
next
  case (Cons a xs)
  have "(if a < x then a else x) = min a x" by (simp add: min_def)
  then have "fold (\<lambda>y m. if y < m then y else m) (a # xs) x = Min (insert (min a x) (set xs))"
    using Cons.IH[of "min a x"] by simp
  also have "\<dots> = Min (insert x (set (a # xs)))"
  proof (cases "set xs = {}")
    case True
    then show ?thesis by (simp add: min.commute)
  next
    case False
    then show ?thesis by (simp add: min.assoc min.left_commute min.commute)
  qed
  finally show ?case .
qed

lemma fold_max_eq_Max:
  "fold (\<lambda>y m. if y > m then y else m) xs (x::real) = Max (insert x (set xs))"
proof (induction xs arbitrary: x)
  case Nil
  show ?case by simp
next
  case (Cons a xs)
  have "(if a > x then a else x) = max a x" by (simp add: max_def)
  then have "fold (\<lambda>y m. if y > m then y else m) (a # xs) x = Max (insert (max a x) (set xs))"
    using Cons.IH[of "max a x"] by simp
  also have "\<dots> = Max (insert x (set (a # xs)))"
  proof (cases "set xs = {}")
    case True
    then show ?thesis by (simp add: max.commute)
  next
    case False
    then show ?thesis by (simp add: max.assoc max.left_commute max.commute)
  qed
  finally show ?case .
qed

lemma list_min_eq_Min: "xs \<noteq> [] \<Longrightarrow> list_min xs = Min (set xs)"
  by (cases xs) (simp_all add: fold_min_eq_Min)

lemma list_max_eq_Max: "xs \<noteq> [] \<Longrightarrow> list_max xs = Max (set xs)"
  by (cases xs) (simp_all add: fold_max_eq_Max)

text \<open>
  What the parser promises for one file: the statistics of every metric with samples are
  those of its sample collection.
\<close>

lemma post_init_statistics:
  assumes "samples m \<noteq> []"
  shows "min_value (post_init m) = Some (Min (set (map value (samples m))))"
    and "max_value (post_init m) = Some (Max (set (map value (samples m))))"
    and "mean_value (post_init m) = Some (mean (map value (samples m)))"
    and "std_dev (post_init m)
         = Some (if length (samples m) > 1 then stdev (map value (samples m)) else 0)"
    and "samples (post_init m) = samples m"
  using assms by (simp_all add: post_init_def Let_def list_min_eq_Min list_max_eq_Max)

lemma parse_statistics:
  assumes "(nm, m) \<in> set (parse content)" and "samples m \<noteq> []"
  shows "min_value m = Some (Min (set (map value (samples m))))
    \<and> max_value m = Some (Max (set (map value (samples m))))
    \<and> mean_value m = Some (mean (map value (samples m)))
    \<and> std_dev m = Some (if length (samples m) > 1 then stdev (map value (samples m)) else 0)"
proof -
  from assms(1) obtain m0 where m: "m = post_init m0"
    by (auto simp: parse_def)
  have s: "samples (post_init m0) = samples m0"
    by (simp add: post_init_def Let_def)
  with assms(2) m have "samples m0 \<noteq> []" by simp
  from post_init_statistics[OF this] show ?thesis
    by (simp add: m)
qed

text \<open>
  Claim C4, at the directory \<^verbatim>\<open>a.prom\<close> = \<^verbatim>\<open>m 1\<close>, \<^verbatim>\<open>b.prom\<close> = \<^verbatim>\<open>m 5\<close>. The catalog entry
  of \<^verbatim>\<open>m\<close> holds both samples, but its statistics are those that the parser computed for
  the first file alone: minimum, maximum and mean 1 and deviation 0, where the merged
  collection has maximum 5, mean 3 and deviation \<open>sqrt 8\<close>. The merge extends the sample
  list and does not run \<^verbatim>\<open>__post_init__\<close> again.
\<close>

theorem merged_statistics_are_of_first_file:
  "map (samples \<circ> snd)
     (metrics (scan_directory R 100
        (Some [(''a.prom'', Some ''m 1''), (''b.prom'', Some ''m 5'')]) MetricGenerator))
     = [[\<lparr>value = 1, labels = []\<rparr>, \<lparr>value = 5, labels = []\<rparr>]]
   \<and> map (min_value \<circ> snd)
     (metrics (scan_directory R 100
        (Some [(''a.prom'', Some ''m 1''), (''b.prom'', Some ''m 5'')]) MetricGenerator))
     = [Some 1]
   \<and> map (max_value \<circ> snd)
     (metrics (scan_directory R 100
        (Some [(''a.prom'', Some ''m 1''), (''b.prom'', Some ''m 5'')]) MetricGenerator))
     = [Some 1]
   \<and> map (mean_value \<circ> snd)
     (metrics (scan_directory R 100
        (Some [(''a.prom'', Some ''m 1''), (''b.prom'', Some ''m 5'')]) MetricGenerator))
     = [Some 1]
   \<and> map (std_dev \<circ> snd)
     (metrics (scan_directory R 100
        (Some [(''a.prom'', Some ''m 1''), (''b.prom'', Some ''m 5'')]) MetricGenerator))
     = [Some 0]
   \<and> list_max [1, 5] = 5 \<and> mean [1, 5] = 3 \<and> stdev [1, 5] = sqrt 8"
  by (simp add: str_defs re_defs parse_defs gen_defs stdev_def)

section \<open>Labels written back from a label key\<close>

lemma str_split_no_sep: "sep \<notin> set s \<Longrightarrow> str_split sep s = [s]"
  by (induction s) auto

lemma str_split_append:
  "sep \<notin> set x \<Longrightarrow> str_split sep (x @ sep # rest) = x # str_split sep rest"
  by (induction x) auto

lemma str_split_join:
  assumes "items \<noteq> []" and "\<forall>x \<in> set items. sep \<notin> set x"
  shows "str_split sep (str_join [sep] items) = items"
  using assms
proof (induction "[sep]" items rule: str_join.induct)
  case 1
  then show ?case by simp
next
  case (2 x)
  then show ?case by (simp add: str_split_no_sep)
next
  case (3 x y ys)
  then show ?case by (simp add: str_split_append)
qed

lemma str_split1_pair:
  "sep \<notin> set k \<Longrightarrow> str_split1 sep (k @ sep # v) = [k, v]"
  by (induction k) (auto simp: str_split1_def)

lemma fold_update_fresh:
  assumes "distinct (map fst xs)" and "fst ` set xs \<inter> fst ` set acc = {}"
  shows "fold (\<lambda>(k, v) d. AList.update k v d) xs acc = acc @ xs"
  using assms
proof (induction xs arbitrary: acc)
  case Nil
  then show ?case by simp
next
  case (Cons e xs)
  obtain k v where e: "e = (k, v)" by (cases e)
  from Cons.prems have fresh: "k \<notin> fst ` set acc" by (auto simp: e)
  have upd: "AList.update k v acc = acc @ [(k, v)]"
    using fresh by (induction acc) auto
  have "fst ` set xs \<inter> fst ` set (acc @ [(k, v)]) = {}"
    using Cons.prems by (auto simp: e)
  with Cons.IH[of "acc @ [(k, v)]"] Cons.prems(1) show ?case
    by (simp add: e upd)
qed

lemma fold_items_to_labels:
  assumes "\<forall>(k, v) \<in> set xs. CHR ''='' \<notin> set k"
  shows "fold (\<lambda>item lbls.
                 if CHR ''='' \<in> set item then
                   (case str_split1 CHR ''='' item of
                      [k, v] \<Rightarrow> AList.update k v lbls
                    | _ \<Rightarrow> lbls)
                 else lbls)
           (map (\<lambda>(k, v). k @ CHR ''='' # v) xs) acc
         = fold (\<lambda>(k, v) d. AList.update k v d) xs acc"
  using assms
proof (induction xs arbitrary: acc)
  case Nil
  show ?case by simp
next
  case (Cons e xs)
  obtain k v where e: "e = (k, v)" by (cases e)
  from Cons.prems have k: "CHR ''='' \<notin> set k" by (simp add: e)
  have "str_split1 CHR ''='' (k @ CHR ''='' # v) = [k, v]"
    using k by (rule str_split1_pair)
  with Cons show ?case by (simp add: e)
qed

text \<open>
  Writing a label key and reading it back gives the labels again, in key order, as long as
  no label value holds a comma (label names, being identifiers, hold neither comma nor
  equals sign).
\<close>

lemma key_to_labels_labels_to_key:
  assumes d: "distinct (map fst ls)"
    and ok: "\<forall>(k, v) \<in> set ls. CHR '','' \<notin> set k \<and> CHR ''='' \<notin> set k \<and> CHR '','' \<notin> set v"
  shows "key_to_labels (labels_to_key ls) = sort ls"
proof (cases "ls = []")
  case True
  then show ?thesis by (simp add: labels_to_key_def key_to_labels_def)
next
  case False
  let ?items = "map (\<lambda>(k, v). k @ CHR ''='' # v) (sort ls)"
  have "sort ls \<noteq> []"
    using False by (metis set_empty set_sort)
  then obtain e es where es: "sort ls = e # es"
    by (cases "sort ls") auto
  have ne: "?items \<noteq> []" by (simp add: es)
  have nocomma: "\<forall>x \<in> set ?items. CHR '','' \<notin> set x"
    using ok by auto
  have key: "labels_to_key ls = str_join '','' ?items"
    using False by (simp add: labels_to_key_def)
  have "labels_to_key ls \<noteq> []"
    unfolding key es by (cases e; cases es) auto
  then have "key_to_labels (labels_to_key ls)
      = fold (\<lambda>item lbls.
                 if CHR ''='' \<in> set item then
                   (case str_split1 CHR ''='' item of
                      [k, v] \<Rightarrow> AList.update k v lbls
                    | _ \<Rightarrow> lbls)
                 else lbls)
          (str_split CHR '','' (str_join '','' ?items)) []"
    by (simp only: key_to_labels_def key if_False)
  also have "str_split CHR '','' (str_join '','' ?items) = ?items"
    using ne nocomma by (rule str_split_join)
  also have "fold (\<lambda>item lbls.
                 if CHR ''='' \<in> set item then
                   (case str_split1 CHR ''='' item of
                      [k, v] \<Rightarrow> AList.update k v lbls
                    | _ \<Rightarrow> lbls)
                 else lbls) ?items []
      = fold (\<lambda>(k, v) d. AList.update k v d) (sort ls) []"
    using ok by (intro fold_items_to_labels) auto
  also have "\<dots> = [] @ sort ls"
  proof (rule fold_update_fresh)
    have "distinct (sort ls)" using d by (auto dest: distinct_map[THEN iffD1])
    moreover have "inj_on fst (set (sort ls))"
      using d by (auto dest: distinct_map[THEN iffD1])
    ultimately show "distinct (map fst (sort ls))" by (simp add: distinct_map)
  qed simp
  finally show ?thesis by simp
qed

text \<open>
  Claim C7, at the file whose only line is \<^verbatim>\<open>m{a="x,y"} 1\<close>. The parser reads the label
  \<open>a\<close> with the value \<^verbatim>\<open>x,y\<close>; the line that \<^verbatim>\<open>generate_metrics\<close> writes carries the name
  and the number, but the label value \<^verbatim>\<open>x\<close>: \<^verbatim>\<open>_key_to_labels\<close> splits the key at every comma.
\<close>

theorem comma_in_label_value_is_lost:
  \<open>map (samples \<circ> snd) (parse ''m{a="x,y"} 1'')
     = [[\<lparr>value = 1, labels = [(''a'', ''x,y'')]\<rparr>]]
   \<and> snd (generate_metrics fixed_rng 100
             (Some [(''a.prom'', Some ''m{a="x,y"} 1'')]) MetricGenerator)
     = [SampleLine ''m'' [(''a'', ''x'')] 1]\<close>
  by (simp add: str_defs re_defs parse_defs gen_defs)

section \<open>Invariants of the catalog\<close>

lemma fold_invariant:
  assumes "I s" and "\<And>x s. x \<in> set xs \<Longrightarrow> I s \<Longrightarrow> I (f x s)"
  shows "I (fold f xs s)"
  using assms by (induction xs arbitrary: s) simp_all

lemma all_stats_ok_update:
  "all_stats_ok al \<Longrightarrow> stats_ok v \<Longrightarrow> all_stats_ok (AList.update k v al)"
  unfolding all_stats_ok_def by (induction al) auto

lemma all_stats_ok_map_entry:
  "all_stats_ok al \<Longrightarrow> (\<And>x. stats_ok x \<Longrightarrow> stats_ok (f x)) \<Longrightarrow> all_stats_ok (AList.map_entry k f al)"
  unfolding all_stats_ok_def by (induction al) auto

lemma fold_min_le: "fold (\<lambda>y m. if y < m then y else m) xs (x::real) \<le> x"
proof (induction xs arbitrary: x)
  case Nil
  show ?case by simp
next
  case (Cons a xs)
  have "fold (\<lambda>y m. if y < m then y else m) xs (if a < x then a else x) \<le> (if a < x then a else x)"
    by (rule Cons.IH)
  then show ?case by (simp split: if_splits)
qed

lemma fold_max_ge: "x \<le> fold (\<lambda>y m. if y > m then y else m) xs (x::real)"
proof (induction xs arbitrary: x)
  case Nil
  show ?case by simp
next
  case (Cons a xs)
  have "(if a > x then a else x) \<le> fold (\<lambda>y m. if y > m then y else m) xs (if a > x then a else x)"
    by (rule Cons.IH)
  then show ?case by (simp split: if_splits)
qed

lemma list_min_le_list_max: "xs \<noteq> [] \<Longrightarrow> list_min xs \<le> list_max xs"
proof (cases xs)
  case Nil
  assume "xs \<noteq> []"
  with Nil show ?thesis by simp
next
  case (Cons x ys)
  have "list_min (x # ys) \<le> x" by (simp add: fold_min_le)
  moreover have "x \<le> list_max (x # ys)" by (simp add: fold_max_ge)
  ultimately show ?thesis using Cons by simp
qed

lemma stats_ok_post_init: "stats_ok m \<Longrightarrow> stats_ok (post_init m)"
proof (cases "samples m = []")
  case True
  assume "stats_ok m"
  with True show ?thesis by (auto simp: stats_ok_def post_init_def split: option.splits)
next
  case False
  let ?vs = "map value (samples m)"
  from False have ne: "?vs \<noteq> []" by simp
  then have "list_min ?vs \<in> set ?vs" and "list_max ?vs \<in> set ?vs"
    by (simp_all only: list_min_eq_Min list_max_eq_Max Min_in Max_in List.finite_set set_empty
        not_False_eq_True)
  with False list_min_le_list_max[OF ne] show ?thesis
    by (simp add: stats_ok_def post_init_def Let_def)
qed

lemma stats_ok_MetricDefinition: "stats_ok (MetricDefinition nm ty help [])"
  by (simp add: MetricDefinition_def stats_ok_def post_init_def)

lemma stats_ok_help_text: "stats_ok m \<Longrightarrow> stats_ok (m\<lparr>help_text := h\<rparr>)"
  by (auto simp: stats_ok_def split: option.splits)

lemma stats_ok_metric_type: "stats_ok m \<Longrightarrow> stats_ok (m\<lparr>metric_type := ty\<rparr>)"
  by (auto simp: stats_ok_def split: option.splits)

lemma stats_ok_more_samples: "stats_ok m \<Longrightarrow> stats_ok (m\<lparr>samples := samples m @ ss\<rparr>)"
  by (auto simp: stats_ok_def split: option.splits)

text \<open>What a line does to the catalog is one of three updates, or nothing.\<close>

lemma parse_line_preserves:
  assumes "I ms"
    and "\<And>nm help. I (set_help nm help ms)"
    and "\<And>nm ty. I (set_type nm ty ms)"
    and "\<And>nm sample. I (add_sample nm sample ms)"
  shows "I (parse_line raw ms)"
  unfolding parse_line_def Let_def
  by (simp add: assms split: list.split option.split prod.split)

lemma stats_ok_parse_line:
  assumes "all_stats_ok ms"
  shows "all_stats_ok (parse_line raw ms)"
proof (rule parse_line_preserves[where I = all_stats_ok])
  show "all_stats_ok ms" by (rule assms)
next
  fix nm h
  show "all_stats_ok (set_help nm h ms)"
    unfolding set_help_def using assms
    by (auto intro!: all_stats_ok_update all_stats_ok_map_entry stats_ok_MetricDefinition
        stats_ok_help_text)
next
  fix nm ty
  show "all_stats_ok (set_type nm ty ms)"
    unfolding set_type_def using assms
    by (auto intro!: all_stats_ok_update all_stats_ok_map_entry stats_ok_MetricDefinition
        stats_ok_metric_type)
next
  fix nm sample
  show "all_stats_ok (add_sample nm sample ms)"
    unfolding add_sample_def using assms
    by (auto intro!: all_stats_ok_update all_stats_ok_map_entry stats_ok_MetricDefinition
        stats_ok_more_samples)
qed

lemma stats_ok_parse: "all_stats_ok (parse content)"
proof -
  have "all_stats_ok (fold parse_line ls [])" for ls
  proof (rule fold_invariant[where I = all_stats_ok])
    show "all_stats_ok []" by (simp add: all_stats_ok_def)
  qed (rule stats_ok_parse_line)
  then have "\<forall>e \<in> set (fold parse_line ls []). stats_ok (snd e)" for ls
    by (simp add: all_stats_ok_def list_all_iff)
  then show ?thesis
    by (fastforce simp: parse_def all_stats_ok_def list_all_iff intro: stats_ok_post_init)
qed

lemma distinct_parse_line:
  assumes "distinct (map fst ms)"
  shows "distinct (map fst (parse_line raw ms))"
  by (rule parse_line_preserves[where I = "\<lambda>ms. distinct (map fst ms)"])
    (simp_all add: assms set_help_def set_type_def add_sample_def distinct_update distinct_map_entry)

lemma map_fst_map_snd: "map fst (map (\<lambda>(nm, metric). (nm, f metric)) xs) = map fst xs"
  by (induction xs) auto

lemma distinct_parse: "distinct (map fst (parse content))"
proof -
  have "distinct (map fst (fold parse_line ls []))" for ls
    by (rule fold_invariant[where I = "\<lambda>ms. distinct (map fst ms)"])
      (simp_all add: distinct_parse_line)
  then show ?thesis unfolding parse_def map_fst_map_snd by simp
qed

lemma stats_ok_merge_metric:
  assumes "stats_ok metric" and "all_stats_ok acc"
  shows "all_stats_ok (merge_metric (nm, metric) acc)"
  using assms unfolding merge_metric_def
  by (auto intro!: all_stats_ok_update all_stats_ok_map_entry stats_ok_more_samples)

lemma stats_ok_merge_file:
  assumes "all_stats_ok fm" and "all_stats_ok acc"
  shows "all_stats_ok (merge_file fm acc)"
  unfolding merge_file_def
proof (rule fold_invariant[where I = all_stats_ok])
  show "all_stats_ok acc" by (rule assms)
next
  fix e s
  assume e: "e \<in> set fm" and s: "all_stats_ok s"
  obtain nm metric where nm: "e = (nm, metric)" by (cases e)
  have "stats_ok metric"
    using assms(1) e nm by (auto simp: all_stats_ok_def list_all_iff)
  then show "all_stats_ok (merge_metric e s)"
    unfolding nm using s by (rule stats_ok_merge_metric)
qed

lemma distinct_merge_metric:
  "distinct (map fst acc) \<Longrightarrow> distinct (map fst (merge_metric e acc))"
  unfolding merge_metric_def
  by (simp add: distinct_update distinct_map_entry split: prod.split)

lemma distinct_merge_file:
  "distinct (map fst acc) \<Longrightarrow> distinct (map fst (merge_file fm acc))"
  unfolding merge_file_def
  by (rule fold_invariant[where I = "\<lambda>ms. distinct (map fst ms)"]) (simp_all add: distinct_merge_metric)

lemma scan_files_invariant:
  "scan_files files acc = Some cat \<Longrightarrow> all_stats_ok acc \<Longrightarrow> distinct (map fst acc)
   \<Longrightarrow> all_stats_ok cat \<and> distinct (map fst cat)"
proof (induction files acc rule: scan_files.induct)
  case (1 new_metrics)
  then show ?case by simp
next
  case (2 filename content files new_metrics)
  show ?case
  proof (cases "endswith ''.prom'' filename")
    case False
    with 2 show ?thesis by simp
  next
    case True
    with "2.prems"(1) obtain body where c: "content = Some body"
      and s: "scan_files files (merge_file (parse body) new_metrics) = Some cat"
      by (cases content) simp_all
    show ?thesis
      using True c s "2.prems"(2,3)
      by (intro "2.IH"(1)[of body]) (simp_all add: stats_ok_merge_file stats_ok_parse distinct_merge_file)
  qed
qed

section \<open>Random draws and seeding\<close>




subsection \<open>Seeding\<close>











subsection \<open>Scanning the directory\<close>

lemma scan_files_read_error:
  assumes "(fn, None) \<in> set files" and "endswith ''.prom'' fn"
  shows "scan_files files acc = None"
  using assms(1)
proof (induction files acc rule: scan_files.induct)
  case (1 new_metrics)
  then show ?case by simp
next
  case (2 filename content files new_metrics)
  show ?case
  proof (cases "(filename, content) = (fn, None)")
    case True
    then show ?thesis using assms(2) by simp
  next
    case False
    with "2.prems" have "(fn, None) \<in> set files" by auto
    then show ?thesis
      using "2.IH" by (simp split: option.split)
  qed
qed

text \<open>
  Claim C5, as amended. When a \<^verbatim>\<open>.prom\<close> file of the listing cannot be opened or read, the
  scan that is due installs nothing: the catalog and the counter store stay as they were and
  only the time of the last scan advances. The files that could be read are not loaded.
\<close>

theorem scan_directory_read_error_abandons:
  assumes "(fn, None) \<in> set files" and "endswith ''.prom'' fn"
    and "\<not> t - last_scan_time g < scan_interval g"
  shows "scan_directory R t (Some files) g = g\<lparr>last_scan_time := t\<rparr>"
  using assms(3) scan_files_read_error[OF assms(1,2)]
  by (simp add: scan_directory_def)

text \<open>
  The scan of the directory with the unreadable file changes the time of the last scan only.
\<close>

theorem scan_directory_read_error_abandons_witness:
  "(''a.prom'', None) \<in> set (the unreadable_dir) \<and> endswith ''.prom'' ''a.prom''
   \<and> \<not> 100 - last_scan_time MetricGenerator < scan_interval MetricGenerator
   \<and> scan_directory fixed_rng 100 (Some (the unreadable_dir)) MetricGenerator
       = MetricGenerator\<lparr>last_scan_time := 100\<rparr>"
proof -
  have a: "(''a.prom'', None) \<in> set (the unreadable_dir)"
    by (simp add: unreadable_dir_def)
  have b: "endswith ''.prom'' ''a.prom''"
    by (simp add: endswith_def)
  have c: "\<not> 100 - last_scan_time MetricGenerator < scan_interval MetricGenerator"
    by (simp add: MetricGenerator_def)
  from scan_directory_read_error_abandons[OF a b c, of fixed_rng] a b c show ?thesis by blast
qed

text \<open>
  The claim as stated fails: \<^verbatim>\<open>a.prom\<close> cannot be read, \<^verbatim>\<open>b.prom\<close> holds the metric \<^verbatim>\<open>m\<close>, and the catalog after the scan is empty.
\<close>

theorem read_error_installs_nothing:
  "metrics (scan_directory fixed_rng 100 unreadable_dir MetricGenerator) = []
   \<and> map fst (parse ''m 1'') = [''m'']"
  by (simp add: eval_defs)

lemma scan_directory_cases:
  obtains (throttled) "scan_directory R t dir g = g"
  | (failed) "scan_directory R t dir g = g\<lparr>last_scan_time := t\<rparr>"
  | (rebuilt) files cat where "dir = Some files" and "scan_files files [] = Some cat"
      and "\<not> t - last_scan_time g < scan_interval g"
      and "scan_directory R t dir g =
             g\<lparr>last_scan_time := t, metrics := cat,
               counter_state := fst (fold (seed_metric R) cat (counter_state g, draws g)),
               draws := snd (fold (seed_metric R) cat (counter_state g, draws g))\<rparr>"
proof (cases "t - last_scan_time g < scan_interval g")
  case True
  then show ?thesis using throttled by (simp add: scan_directory_def)
next
  case False
  show ?thesis
  proof (cases dir)
    case None
    with False show ?thesis using failed by (simp add: scan_directory_def)
  next
    case (Some files)
    show ?thesis
    proof (cases "scan_files files []")
      case None
      with False Some show ?thesis using failed by (simp add: scan_directory_def)
    next
      case (Some cat)
      with False \<open>dir = Some files\<close> show ?thesis
        using rebuilt[of files cat] by (simp add: scan_directory_def split: prod.split)
    qed
  qed
qed

lemma scan_directory_rebuilds:
  assumes "\<not> t - last_scan_time g < scan_interval g" and "scan_files files [] = Some cat"
  shows "scan_directory R t (Some files) g =
           g\<lparr>last_scan_time := t, metrics := cat,
             counter_state := fst (fold (seed_metric R) cat (counter_state g, draws g)),
             draws := snd (fold (seed_metric R) cat (counter_state g, draws g))\<rparr>"
  using assms by (simp add: scan_directory_def split: prod.split)


lemma catalog_ok_MetricGenerator: "catalog_ok MetricGenerator"
  by (simp add: catalog_ok_def MetricGenerator_def all_stats_ok_def)

lemma catalog_ok_scan_directory:
  assumes "catalog_ok g"
  shows "catalog_ok (scan_directory R t dir g)"
proof (cases rule: scan_directory_cases[of R t dir g])
  case throttled
  then show ?thesis using assms by simp
next
  case failed
  then show ?thesis using assms by (simp add: catalog_ok_def)
next
  case (rebuilt files cat)
  have "all_stats_ok cat \<and> distinct (map fst cat)"
    using rebuilt(2) by (rule scan_files_invariant) (simp_all add: all_stats_ok_def)
  with rebuilt(4) show ?thesis by (simp add: catalog_ok_def)
qed




section \<open>The generation loops\<close>

lemma emitted_cong:
  assumes "cst1 nm = cst2 nm" and "cst1' nm = cst2' nm"
  shows "emitted R cst1 cst1' nm m K l = emitted R cst2 cst2' nm m K l"
  using assms by (simp add: emitted_def counter_lookup_def)

lemma emitted_mono: "emitted R cst cst' nm m K l \<Longrightarrow> K \<subseteq> K' \<Longrightarrow> emitted R cst cst' nm m K' l"
  unfolding emitted_def by blast

lemma generate_group_cases:
  obtains (skip) "generate_group R nm m (k, vs) (cst, i, out) = (cst, i, out)"
  | (counter) cs v0 where "is_counter m" and "cst nm = Some cs" and "cs k = Some v0"
      and "generate_group R nm m (k, vs) (cst, i, out) =
             (cst(nm \<mapsto> cs(k \<mapsto> v0 + counter_increment R i m)), Suc i,
              out @ [SampleLine nm (key_to_labels k) (v0 + counter_increment R i m)])"
  | (gauge) lo hi where "\<not> is_counter m" and "min_value m = Some lo" and "max_value m = Some hi"
      and "generate_group R nm m (k, vs) (cst, i, out) =
             (cst, Suc i, out @ [SampleLine nm (key_to_labels k) (gauge_value R i m lo hi)])"
proof (cases "is_counter m")
  case True
  show ?thesis
  proof (cases "cst nm")
    case None
    with True show ?thesis using skip by (simp add: generate_group_def)
  next
    case (Some cs)
    show ?thesis
    proof (cases "cs k")
      case None
      with True Some show ?thesis using skip by (simp add: generate_group_def)
    next
      case (Some v0)
      with True \<open>cst nm = Some cs\<close> show ?thesis
        using counter[of cs v0] by (simp add: generate_group_def Let_def)
    qed
  qed
next
  case False
  show ?thesis
  proof (cases "min_value m")
    case None
    with False show ?thesis using skip by (simp add: generate_group_def)
  next
    case (Some lo)
    show ?thesis
    proof (cases "max_value m")
      case None
      with False Some show ?thesis using skip by (simp add: generate_group_def)
    next
      case (Some hi)
      with False \<open>min_value m = Some lo\<close> show ?thesis
        using gauge[of lo hi] by (simp add: generate_group_def Let_def)
    qed
  qed
qed

text \<open>The inner loop over the label groups of one metric.\<close>

lemma group_post_refl: "group_post R nm m K cst out cst out"
  by (simp add: group_post_def)

lemma group_post_step:
  assumes step: "generate_group R nm m (k, vs) (cst, i, out) = (cst', i', out')"
  shows "group_post R nm m {k} cst out cst' out'"
proof (cases rule: generate_group_cases[of R nm m k vs cst i out])
  case skip
  with step show ?thesis by (simp add: group_post_refl)
next
  case (counter cs v0)
  let ?v = "v0 + counter_increment R i m"
  from counter(4) step have cst': "cst' = cst(nm \<mapsto> cs(k \<mapsto> ?v))"
    and out': "out' = out @ [SampleLine nm (key_to_labels k) ?v]" by simp_all
  have "counter_lookup cst nm k = Some v0 \<and> ?v = v0 + counter_increment R i m"
    using counter(2,3) by (simp add: counter_lookup_def)
  moreover have "counter_lookup cst' nm k = Some ?v"
    by (simp add: cst' counter_lookup_def)
  ultimately have "emitted R cst cst' nm m {k} (SampleLine nm (key_to_labels k) ?v)"
    unfolding emitted_def using counter(1) by auto
  moreover have "\<forall>n. n \<noteq> nm \<longrightarrow> cst' n = cst n" by (simp add: cst')
  moreover have "\<forall>k'. k' \<notin> {k} \<longrightarrow> counter_lookup cst' nm k' = counter_lookup cst nm k'"
    using counter(2) by (simp add: cst' counter_lookup_def)
  ultimately show ?thesis
    unfolding group_post_def out' by simp
next
  case (gauge lo hi)
  from gauge(4) step have cst': "cst' = cst"
    and out': "out' = out @ [SampleLine nm (key_to_labels k) (gauge_value R i m lo hi)]"
    by simp_all
  have "emitted R cst cst' nm m {k} (SampleLine nm (key_to_labels k) (gauge_value R i m lo hi))"
    unfolding emitted_def using gauge(1,2,3) by auto
  then show ?thesis
    unfolding group_post_def out' cst' by simp
qed

lemma group_post_trans:
  assumes a: "group_post R nm m K1 cst out cst1 out1"
    and b: "group_post R nm m K2 cst1 out1 cst2 out2"
    and disj: "K1 \<inter> K2 = {}"
  shows "group_post R nm m (K1 \<union> K2) cst out cst2 out2"
proof -
  from a obtain new1 where new1: "out1 = out @ new1"
    and l1: "\<forall>l \<in> set new1. emitted R cst cst1 nm m K1 l"
    and o1: "\<forall>n. n \<noteq> nm \<longrightarrow> cst1 n = cst n"
    and k1: "\<forall>k. k \<notin> K1 \<longrightarrow> counter_lookup cst1 nm k = counter_lookup cst nm k"
    unfolding group_post_def by blast
  from b obtain new2 where new2: "out2 = out1 @ new2"
    and l2: "\<forall>l \<in> set new2. emitted R cst1 cst2 nm m K2 l"
    and o2: "\<forall>n. n \<noteq> nm \<longrightarrow> cst2 n = cst1 n"
    and k2: "\<forall>k. k \<notin> K2 \<longrightarrow> counter_lookup cst2 nm k = counter_lookup cst1 nm k"
    unfolding group_post_def by blast
  have e1: "emitted R cst cst2 nm m (K1 \<union> K2) l" if "l \<in> set new1" for l
  proof -
    from l1 that obtain k v where k: "k \<in> K1" and l: "l = SampleLine nm (key_to_labels k) v"
      and c: "if is_counter m
              then (\<exists>v0 j. counter_lookup cst nm k = Some v0
                      \<and> v = v0 + counter_increment R j m)
                   \<and> counter_lookup cst1 nm k = Some v
              else (\<exists>lo hi j. min_value m = Some lo \<and> max_value m = Some hi
                     \<and> v = gauge_value R j m lo hi)"
      unfolding emitted_def by blast
    from k disj have "k \<notin> K2" by blast
    with k2 have "counter_lookup cst2 nm k = counter_lookup cst1 nm k" by simp
    with c k l show ?thesis
      unfolding emitted_def by (intro exI[of _ k] exI[of _ v]) (simp split: if_splits)
  qed
  have e2: "emitted R cst cst2 nm m (K1 \<union> K2) l" if "l \<in> set new2" for l
  proof -
    from l2 that obtain k v where k: "k \<in> K2" and l: "l = SampleLine nm (key_to_labels k) v"
      and c: "if is_counter m
              then (\<exists>v0 j. counter_lookup cst1 nm k = Some v0
                      \<and> v = v0 + counter_increment R j m)
                   \<and> counter_lookup cst2 nm k = Some v
              else (\<exists>lo hi j. min_value m = Some lo \<and> max_value m = Some hi
                     \<and> v = gauge_value R j m lo hi)"
      unfolding emitted_def by blast
    from k disj have "k \<notin> K1" by blast
    with k1 have "counter_lookup cst1 nm k = counter_lookup cst nm k" by simp
    with c k l show ?thesis
      unfolding emitted_def by (intro exI[of _ k] exI[of _ v]) (simp split: if_splits)
  qed
  have "out2 = out @ (new1 @ new2)" by (simp add: new1 new2)
  moreover have "\<forall>l \<in> set (new1 @ new2). emitted R cst cst2 nm m (K1 \<union> K2) l"
    using e1 e2 by auto
  moreover have "\<forall>n. n \<noteq> nm \<longrightarrow> cst2 n = cst n" using o1 o2 by simp
  moreover have "\<forall>k. k \<notin> K1 \<union> K2 \<longrightarrow> counter_lookup cst2 nm k = counter_lookup cst nm k"
    using k1 k2 by simp
  ultimately show ?thesis
    unfolding group_post_def by blast
qed

lemma fold_generate_group:
  assumes "distinct (map fst gs)"
    and "fold (generate_group R nm m) gs (cst, i, out) = (cst', i', out')"
  shows "group_post R nm m (fst ` set gs) cst out cst' out'"
  using assms
proof (induction gs arbitrary: cst i out)
  case Nil
  then show ?case by (simp add: group_post_refl)
next
  case (Cons g gs)
  obtain k vs where g: "g = (k, vs)" by (cases g)
  obtain cst1 i1 out1 where s1: "generate_group R nm m (k, vs) (cst, i, out) = (cst1, i1, out1)"
    by (cases "generate_group R nm m (k, vs) (cst, i, out)")
  have a: "group_post R nm m {k} cst out cst1 out1"
    using s1 by (rule group_post_step)
  have b: "group_post R nm m (fst ` set gs) cst1 out1 cst' out'"
    using Cons.prems by (intro Cons.IH[of cst1 i1 out1]) (simp_all add: g s1)
  have "{k} \<inter> fst ` set gs = {}"
    using Cons.prems(1) by (auto simp: g)
  with a b have "group_post R nm m ({k} \<union> fst ` set gs) cst out cst' out'"
    by (rule group_post_trans)
  then show ?case by (simp add: g)
qed

section \<open>The output of \<^verbatim>\<open>generate_metrics\<close>\<close>

lemma distinct_group_samples: "distinct (map fst (group_samples ss))"
  unfolding group_samples_def
  by (rule fold_invariant[where I = "\<lambda>gs. distinct (map fst gs)"])
    (simp_all add: group_sample_def Let_def distinct_update distinct_map_entry)

lemma label_keys_no_samples: "samples m = [] \<Longrightarrow> label_keys m = {}"
  by (simp add: label_keys_def group_samples_def)

lemma generate_metric_post:
  assumes "generate_metric R (nm, m) (cst, i, out) = (cst', i', out')"
  shows "group_post R nm m (label_keys m) cst (out @ metadata_lines nm m) cst' out'"
  unfolding label_keys_def
  using distinct_group_samples assms[unfolded generate_metric_def prod.case]
  by (rule fold_generate_group)

lemma metrics_post_refl: "metrics_post R [] cst out cst out"
  by (simp add: metrics_post_def)

lemma metrics_post_step:
  assumes "group_post R nm m (label_keys m) cst (out @ metadata_lines nm m) cst' out'"
  shows "metrics_post R [(nm, m)] cst out cst' out'"
proof -
  from assms obtain new where new: "out' = (out @ metadata_lines nm m) @ new"
    and l: "\<forall>l \<in> set new. emitted R cst cst' nm m (label_keys m) l"
    and o: "\<forall>n. n \<noteq> nm \<longrightarrow> cst' n = cst n"
    unfolding group_post_def by blast
  have "out' = out @ (metadata_lines nm m @ new)" by (simp add: new)
  moreover have "\<forall>l \<in> set (metadata_lines nm m @ new). \<exists>nm' m'. (nm', m') \<in> set [(nm, m)]
      \<and> (l \<in> set (metadata_lines nm' m') \<or> emitted R cst cst' nm' m' (label_keys m') l)"
    using l by auto
  moreover have "\<forall>nm' m'. (nm', m') \<in> set [(nm, m)]
      \<longrightarrow> set (metadata_lines nm' m') \<subseteq> set (metadata_lines nm m @ new)"
    by auto
  moreover have "\<forall>n. n \<notin> fst ` set [(nm, m)] \<longrightarrow> cst' n = cst n" using o by simp
  ultimately show ?thesis
    unfolding metrics_post_def by blast
qed

lemma metrics_post_trans:
  assumes a: "metrics_post R ms1 cst out cst1 out1"
    and b: "metrics_post R ms2 cst1 out1 cst2 out2"
    and disj: "fst ` set ms1 \<inter> fst ` set ms2 = {}"
  shows "metrics_post R (ms1 @ ms2) cst out cst2 out2"
proof -
  from a obtain new1 where new1: "out1 = out @ new1"
    and l1: "\<forall>l \<in> set new1. \<exists>nm m. (nm, m) \<in> set ms1
               \<and> (l \<in> set (metadata_lines nm m) \<or> emitted R cst cst1 nm m (label_keys m) l)"
    and d1: "\<forall>nm m. (nm, m) \<in> set ms1 \<longrightarrow> set (metadata_lines nm m) \<subseteq> set new1"
    and o1: "\<forall>n. n \<notin> fst ` set ms1 \<longrightarrow> cst1 n = cst n"
    unfolding metrics_post_def by blast
  from b obtain new2 where new2: "out2 = out1 @ new2"
    and l2: "\<forall>l \<in> set new2. \<exists>nm m. (nm, m) \<in> set ms2
               \<and> (l \<in> set (metadata_lines nm m) \<or> emitted R cst1 cst2 nm m (label_keys m) l)"
    and d2: "\<forall>nm m. (nm, m) \<in> set ms2 \<longrightarrow> set (metadata_lines nm m) \<subseteq> set new2"
    and o2: "\<forall>n. n \<notin> fst ` set ms2 \<longrightarrow> cst2 n = cst1 n"
    unfolding metrics_post_def by blast
  have e1: "\<exists>nm m. (nm, m) \<in> set (ms1 @ ms2)
      \<and> (l \<in> set (metadata_lines nm m) \<or> emitted R cst cst2 nm m (label_keys m) l)"
    if "l \<in> set new1" for l
  proof -
    from l1 that obtain nm m where mem: "(nm, m) \<in> set ms1"
      and c: "l \<in> set (metadata_lines nm m) \<or> emitted R cst cst1 nm m (label_keys m) l"
      by blast
    from mem have "nm \<in> fst ` set ms1" by force
    with disj have "nm \<notin> fst ` set ms2" by blast
    with o2 have "cst2 nm = cst1 nm" by simp
    then have "emitted R cst cst2 nm m (label_keys m) l = emitted R cst cst1 nm m (label_keys m) l"
      by (intro emitted_cong) simp_all
    with c mem show ?thesis by auto
  qed
  have e2: "\<exists>nm m. (nm, m) \<in> set (ms1 @ ms2)
      \<and> (l \<in> set (metadata_lines nm m) \<or> emitted R cst cst2 nm m (label_keys m) l)"
    if "l \<in> set new2" for l
  proof -
    from l2 that obtain nm m where mem: "(nm, m) \<in> set ms2"
      and c: "l \<in> set (metadata_lines nm m) \<or> emitted R cst1 cst2 nm m (label_keys m) l"
      by blast
    from mem have "nm \<in> fst ` set ms2" by force
    with disj have "nm \<notin> fst ` set ms1" by blast
    with o1 have "cst1 nm = cst nm" by simp
    then have "emitted R cst1 cst2 nm m (label_keys m) l = emitted R cst cst2 nm m (label_keys m) l"
      by (intro emitted_cong) simp_all
    with c mem show ?thesis by auto
  qed
  have "out2 = out @ (new1 @ new2)" by (simp add: new1 new2)
  moreover have "\<forall>l \<in> set (new1 @ new2). \<exists>nm m. (nm, m) \<in> set (ms1 @ ms2)
      \<and> (l \<in> set (metadata_lines nm m) \<or> emitted R cst cst2 nm m (label_keys m) l)"
    using e1 e2 by auto
  moreover have "\<forall>nm m. (nm, m) \<in> set (ms1 @ ms2)
      \<longrightarrow> set (metadata_lines nm m) \<subseteq> set (new1 @ new2)"
    using d1 d2 by (simp add: subset_iff)
  moreover have "\<forall>n. n \<notin> fst ` set (ms1 @ ms2) \<longrightarrow> cst2 n = cst n"
    using o1 o2 by (simp add: image_Un)
  ultimately show ?thesis
    unfolding metrics_post_def by blast
qed

lemma fold_generate_metric:
  assumes "distinct (map fst ms)"
    and "fold (generate_metric R) ms (cst, i, out) = (cst', i', out')"
  shows "metrics_post R ms cst out cst' out'"
  using assms
proof (induction ms arbitrary: cst i out)
  case Nil
  then show ?case by (simp add: metrics_post_refl)
next
  case (Cons e ms)
  obtain nm m where e: "e = (nm, m)" by (cases e)
  obtain cst1 i1 out1 where s1: "generate_metric R (nm, m) (cst, i, out) = (cst1, i1, out1)"
    by (cases "generate_metric R (nm, m) (cst, i, out)")
  have a: "metrics_post R [(nm, m)] cst out cst1 out1"
    using s1 by (intro metrics_post_step generate_metric_post)
  have b: "metrics_post R ms cst1 out1 cst' out'"
    using Cons.prems by (intro Cons.IH[of cst1 i1 out1]) (simp_all add: e s1)
  have "fst ` set [(nm, m)] \<inter> fst ` set ms = {}"
    using Cons.prems(1) by (auto simp: e)
  with a b have "metrics_post R ([(nm, m)] @ ms) cst out cst' out'"
    by (rule metrics_post_trans)
  then show ?case by (simp add: e)
qed

lemma distinct_map_insort_key:
  "distinct (map f (insort_key f x xs)) = (f x \<notin> f ` set xs \<and> distinct (map f xs))"
  by (induction xs) (auto simp: set_insort_key)

lemma distinct_map_sort_key: "distinct (map f (sort_key f xs)) = distinct (map f xs)"
  by (induction xs) (simp_all add: distinct_map_insort_key)

lemma generate_metrics_empty:
  assumes "metrics (scan_directory R t dir g) = []"
  shows "generate_metrics R t dir g = (scan_directory R t dir g, [NoMetricsFound])"
  using assms by (simp add: generate_metrics_def)

lemma generate_metrics_nonempty:
  assumes "metrics (scan_directory R t dir g) \<noteq> []"
    and "fold (generate_metric R) (sort_key fst (metrics (scan_directory R t dir g)))
           (counter_state (scan_directory R t dir g), draws (scan_directory R t dir g), [])
         = (cst, i, out)"
  shows "generate_metrics R t dir g
         = ((scan_directory R t dir g)\<lparr>counter_state := cst, draws := i\<rparr>, out)"
  using assms by (simp add: generate_metrics_def)

lemma generate_metrics_metrics:
  "metrics (fst (generate_metrics R t dir g)) = metrics (scan_directory R t dir g)"
  by (simp add: generate_metrics_def Let_def split: prod.split)

lemma generate_metrics_post:
  assumes ok: "catalog_ok g"
    and ne: "metrics (scan_directory R t dir g) \<noteq> []"
  shows "metrics_post R (metrics (scan_directory R t dir g))
           (counter_state (scan_directory R t dir g)) []
           (counter_state (fst (generate_metrics R t dir g))) (snd (generate_metrics R t dir g))"
proof -
  let ?g1 = "scan_directory R t dir g"
  obtain cst i out where f: "fold (generate_metric R) (sort_key fst (metrics ?g1))
      (counter_state ?g1, draws ?g1, []) = (cst, i, out)"
    by (cases "fold (generate_metric R) (sort_key fst (metrics ?g1))
      (counter_state ?g1, draws ?g1, [])")
  have gen: "generate_metrics R t dir g = (?g1\<lparr>counter_state := cst, draws := i\<rparr>, out)"
    using ne f by (rule generate_metrics_nonempty)
  have "catalog_ok ?g1" using ok by (rule catalog_ok_scan_directory)
  then have "distinct (map fst (sort_key fst (metrics ?g1)))"
    by (simp add: catalog_ok_def distinct_map_sort_key)
  then have p: "metrics_post R (sort_key fst (metrics ?g1)) (counter_state ?g1) [] cst out"
    using f by (rule fold_generate_metric)
  have "metrics_post R (metrics ?g1) (counter_state ?g1) [] cst out"
    using p unfolding metrics_post_def by simp
  then show ?thesis by (simp add: gen)
qed

lemma catalog_ok_generate_metrics:
  assumes "catalog_ok g"
  shows "catalog_ok (fst (generate_metrics R t dir g))"
  using catalog_ok_scan_directory[OF assms, of R t dir]
  by (simp add: catalog_ok_def generate_metrics_metrics)

lemma catalog_ok_run:
  assumes "catalog_ok g"
  shows "catalog_ok (run R calls g)"
  unfolding run_def
proof (rule fold_invariant[where I = catalog_ok])
  show "catalog_ok g" by (rule assms)
next
  fix c s
  assume "catalog_ok s"
  then show "catalog_ok (step R c s)"
    by (cases c) (simp_all add: catalog_ok_scan_directory catalog_ok_generate_metrics)
qed

section \<open>Counters and gauges\<close>







text \<open>Where a sample line of the output comes from.\<close>

lemma sample_line_origin:
  assumes ok: "catalog_ok g"
    and line: "SampleLine nm ls v \<in> set (snd (generate_metrics R t dir g))"
    and m: "map_of (metrics (fst (generate_metrics R t dir g))) nm = Some m"
  shows "emitted R (counter_state (scan_directory R t dir g))
           (counter_state (fst (generate_metrics R t dir g))) nm m (label_keys m)
           (SampleLine nm ls v)"
proof -
  let ?g1 = "scan_directory R t dir g"
  have ne: "metrics ?g1 \<noteq> []"
  proof
    assume "metrics ?g1 = []"
    then have "snd (generate_metrics R t dir g) = [NoMetricsFound]"
      by (simp add: generate_metrics_empty)
    with line show False by simp
  qed
  have post: "metrics_post R (metrics ?g1) (counter_state ?g1) []
      (counter_state (fst (generate_metrics R t dir g))) (snd (generate_metrics R t dir g))"
    using ok ne by (rule generate_metrics_post)
  with line obtain nm' m' where mem: "(nm', m') \<in> set (metrics ?g1)"
    and c: "SampleLine nm ls v \<in> set (metadata_lines nm' m')
            \<or> emitted R (counter_state ?g1) (counter_state (fst (generate_metrics R t dir g)))
                 nm' m' (label_keys m') (SampleLine nm ls v)"
    unfolding metrics_post_def by auto
  have "SampleLine nm ls v \<notin> set (metadata_lines nm' m')"
    by (simp add: metadata_lines_def)
  with c have e: "emitted R (counter_state ?g1) (counter_state (fst (generate_metrics R t dir g)))
      nm' m' (label_keys m') (SampleLine nm ls v)" by simp
  then have "nm' = nm" by (auto simp: emitted_def)
  have "distinct (map fst (metrics ?g1))"
    using catalog_ok_scan_directory[OF ok, of R t dir] by (simp add: catalog_ok_def)
  with mem have "map_of (metrics ?g1) nm' = Some m'" by simp
  with m \<open>nm' = nm\<close> have "m' = m" by (simp add: generate_metrics_metrics)
  with e \<open>nm' = nm\<close> show ?thesis by simp
qed











text \<open>
  Claim C9, as amended. In every run of the process, \<^verbatim>\<open>generate_metrics\<close> writes no sample
  line for a metric of the catalog that has no samples; its \<^verbatim>\<open># HELP\<close> and \<^verbatim>\<open># TYPE\<close>
  lines are written whenever the help text and the type are not empty.
\<close>

theorem metric_without_samples_emits_metadata_only:
  assumes m: "map_of (metrics (fst (generate_metrics R t dir (run R calls MetricGenerator)))) nm
              = Some m"
    and empty: "samples m = []"
  shows "(\<forall>ls v. SampleLine nm ls v
            \<notin> set (snd (generate_metrics R t dir (run R calls MetricGenerator))))
    \<and> set (metadata_lines nm m)
        \<subseteq> set (snd (generate_metrics R t dir (run R calls MetricGenerator)))"
proof (intro conjI allI)
  let ?g = "run R calls MetricGenerator"
  have ok: "catalog_ok ?g"
    by (rule catalog_ok_run) (rule catalog_ok_MetricGenerator)
  fix ls v
  show "SampleLine nm ls v \<notin> set (snd (generate_metrics R t dir ?g))"
  proof
    assume "SampleLine nm ls v \<in> set (snd (generate_metrics R t dir ?g))"
    with ok have "emitted R (counter_state (scan_directory R t dir ?g))
        (counter_state (fst (generate_metrics R t dir ?g))) nm m (label_keys m) (SampleLine nm ls v)"
      using m by (rule sample_line_origin)
    then show False
      using empty by (simp add: emitted_def label_keys_no_samples)
  qed
next
  let ?g = "run R calls MetricGenerator"
  let ?g1 = "scan_directory R t dir ?g"
  have ok: "catalog_ok ?g"
    by (rule catalog_ok_run) (rule catalog_ok_MetricGenerator)
  from m have mem: "(nm, m) \<in> set (metrics ?g1)"
    by (auto simp: generate_metrics_metrics dest: map_of_SomeD)
  then have "metrics ?g1 \<noteq> []" by auto
  with ok have "metrics_post R (metrics ?g1) (counter_state ?g1) []
      (counter_state (fst (generate_metrics R t dir ?g))) (snd (generate_metrics R t dir ?g))"
    by (rule generate_metrics_post)
  with mem show "set (metadata_lines nm m) \<subseteq> set (snd (generate_metrics R t dir ?g))"
    unfolding metrics_post_def by auto
qed

text \<open>
  The metric with a help text and no sample: its help line is the whole output.
\<close>

theorem metric_without_samples_emits_metadata_only_witness:
  "map_of (metrics (fst (generate_metrics fixed_rng 100 help_only_dir
      (run fixed_rng [] MetricGenerator)))) ''m'' = Some help_only
   \<and> samples help_only = []
   \<and> (\<forall>ls v. SampleLine ''m'' ls v
          \<notin> set (snd (generate_metrics fixed_rng 100 help_only_dir (run fixed_rng [] MetricGenerator))))
   \<and> set (metadata_lines ''m'' help_only)
       \<subseteq> set (snd (generate_metrics fixed_rng 100 help_only_dir (run fixed_rng [] MetricGenerator)))
   \<and> metadata_lines ''m'' help_only = [HelpLine ''m'' ''some text'']"
proof -
  have m: "map_of (metrics (fst (generate_metrics fixed_rng 100 help_only_dir
      (run fixed_rng [] MetricGenerator)))) ''m'' = Some help_only"
    by (simp add: eval_defs)
  have e: "samples help_only = []"
    by (simp add: help_only_def)
  have l: "metadata_lines ''m'' help_only = [HelpLine ''m'' ''some text'']"
    by (simp add: help_only_def metadata_lines_def)
  from metric_without_samples_emits_metadata_only[OF m e] m e l show ?thesis by blast
qed

text \<open>
  The claim as stated fails: the metric has no samples and its \<^verbatim>\<open># HELP\<close> line is written.
\<close>

theorem help_line_without_samples:
  "snd (generate_metrics fixed_rng 100 help_only_dir MetricGenerator) = [HelpLine ''m'' ''some text'']
   \<and> map (samples \<circ> snd) (metrics (fst (generate_metrics fixed_rng 100 help_only_dir MetricGenerator)))
       = [[]]"
  by (simp add: eval_defs)

section \<open>Merged metadata and constant samples\<close>

lemma map_of_merge_metric:
  "map_of (merge_metric (n, m) acc) nm =
     (if n = nm
      then (case map_of acc nm of
              None \<Rightarrow> Some m
            | Some d \<Rightarrow> Some (d\<lparr>samples := samples d @ samples m\<rparr>))
      else map_of acc nm)"
  by (auto simp: merge_metric_def map_of_map_entry update_conv' split: option.splits)

lemma map_of_merge_file:
  assumes "distinct (map fst fm)"
  shows "map_of (merge_file fm acc) nm =
     (case map_of acc nm of
        None \<Rightarrow> map_of fm nm
      | Some d \<Rightarrow> Some (d\<lparr>samples := samples d
                           @ (case map_of fm nm of None \<Rightarrow> [] | Some m \<Rightarrow> samples m)\<rparr>))"
  using assms unfolding merge_file_def
proof (induction fm arbitrary: acc)
  case Nil
  then show ?case by (simp split: option.split)
next
  case (Cons e fm)
  obtain n m where e: "e = (n, m)" by (cases e)
  from Cons.prems have d: "distinct (map fst fm)" and n: "n \<notin> fst ` set fm"
    by (simp_all add: e)
  from n have none: "map_of fm n = None" by (simp add: map_of_eq_None_iff)
  show ?case
  proof (cases "n = nm")
    case True
    then show ?thesis
      using Cons.IH[OF d, of "merge_metric (n, m) acc"] none
      by (simp add: e map_of_merge_metric split: option.split)
  next
    case False
    then show ?thesis
      using Cons.IH[OF d, of "merge_metric (n, m) acc"]
      by (simp add: e map_of_merge_metric split: option.split)
  qed
qed

lemma scan_files_first_wins:
  assumes "scan_files files acc = Some cat"
  shows "map_of cat nm =
     (case map_of acc nm of
        None \<Rightarrow> first_wins (file_definitions nm files)
      | Some d \<Rightarrow> Some (d\<lparr>samples := samples d
                           @ concat (map samples (file_definitions nm files))\<rparr>))"
  using assms
proof (induction files acc rule: scan_files.induct)
  case (1 new_metrics)
  then show ?case
    by (simp add: file_definitions_def first_wins_def split: option.split)
next
  case (2 filename content files new_metrics)
  show ?case
  proof (cases "endswith ''.prom'' filename")
    case False
    then have fd: "file_definitions nm ((filename, content) # files) = file_definitions nm files"
      by (simp add: file_definitions_def split: option.split)
    from False 2 show ?thesis unfolding fd by simp
  next
    case True
    with "2.prems" obtain body where c: "content = Some body"
      and s: "scan_files files (merge_file (parse body) new_metrics) = Some cat"
      by (cases content) simp_all
    have fd: "file_definitions nm ((filename, content) # files)
        = (case map_of (parse body) nm of None \<Rightarrow> [] | Some m \<Rightarrow> [m]) @ file_definitions nm files"
      using True c by (simp add: file_definitions_def)
    have ih: "map_of cat nm =
       (case map_of (merge_file (parse body) new_metrics) nm of
          None \<Rightarrow> first_wins (file_definitions nm files)
        | Some d \<Rightarrow> Some (d\<lparr>samples := samples d
                             @ concat (map samples (file_definitions nm files))\<rparr>))"
      using "2.IH"(1)[OF True c s] .
    show ?thesis
      unfolding ih fd map_of_merge_file[OF distinct_parse]
      by (simp add: first_wins_def split: option.split)
  qed
qed

text \<open>
  Claim C8, as amended. In the catalog that a scan installs, the definition of a metric name is
  the definition given by the first file of the listing that mentions the name, with its help
  text, type, statistics and counter flag, holding the samples of all the files in listing
  order. The \<^verbatim>\<open># HELP\<close> and \<^verbatim>\<open># TYPE\<close> lines of later files are not used.
\<close>

theorem merged_metadata_is_of_first_file:
  assumes "\<not> t - last_scan_time g < scan_interval g" and "scan_files files [] = Some cat"
  shows "map_of (metrics (scan_directory R t (Some files) g)) nm
         = first_wins (file_definitions nm files)"
  using scan_files_first_wins[OF assms(2), of nm] scan_directory_rebuilds[OF assms, of R]
  by simp

text \<open>
  The metric declared in two files keeps the help text and the type of the first and the samples of both.
\<close>

theorem merged_metadata_is_of_first_file_witness:
  "\<not> 100 - last_scan_time MetricGenerator < scan_interval MetricGenerator
   \<and> scan_files two_files [] = Some (merge_file (parse (the (snd (two_files ! 1))))
                                       (merge_file (parse (the (snd (two_files ! 0)))) []))
   \<and> map_option help_text (first_wins (file_definitions ''m'' two_files)) = Some ''first''
   \<and> map_option metric_type (first_wins (file_definitions ''m'' two_files)) = Some ''gauge''
   \<and> map_option (map value \<circ> samples) (first_wins (file_definitions ''m'' two_files))
       = Some [1, 2]
   \<and> map_of (metrics (scan_directory fixed_rng 100 (Some two_files) MetricGenerator)) ''m''
       = first_wins (file_definitions ''m'' two_files)"
proof -
  have due: "\<not> 100 - last_scan_time MetricGenerator < scan_interval MetricGenerator"
    by (simp add: MetricGenerator_def)
  have a: "scan_files two_files [] = Some (merge_file (parse (the (snd (two_files ! 1))))
      (merge_file (parse (the (snd (two_files ! 0)))) []))"
    by (simp add: two_files_def endswith_def)
  have b: "map_option help_text (first_wins (file_definitions ''m'' two_files)) = Some ''first''"
    by (simp add: eval_defs file_definitions_def first_wins_def)
  have c: "map_option metric_type (first_wins (file_definitions ''m'' two_files)) = Some ''gauge''"
    by (simp add: eval_defs file_definitions_def first_wins_def)
  have d: "map_option (map value \<circ> samples) (first_wins (file_definitions ''m'' two_files))
      = Some [1, 2]"
    by (simp add: eval_defs file_definitions_def first_wins_def)
  from merged_metadata_is_of_first_file[OF due a, of fixed_rng "''m''"] due a b c d
  show ?thesis by blast
qed

text \<open>
  The claim as stated fails: the lines of \<^verbatim>\<open>b.prom\<close> are processed last, and the catalog holds the help text and the type of \<^verbatim>\<open>a.prom\<close>.
\<close>

theorem later_file_metadata_is_ignored:
  "map (help_text \<circ> snd) (metrics (scan_directory fixed_rng 100 (Some two_files) MetricGenerator))
     = [''first'']
   \<and> map (metric_type \<circ> snd)
       (metrics (scan_directory fixed_rng 100 (Some two_files) MetricGenerator)) = [''gauge'']
   \<and> map (map value \<circ> samples \<circ> snd)
       (metrics (scan_directory fixed_rng 100 (Some two_files) MetricGenerator)) = [[1, 2]]"
  by (simp add: eval_defs)

subsection \<open>Constant samples\<close>












end
